theory Spec2Isabelle
  imports Main "HOL-Library.Word"
begin

unbundle bit_operations_syntax

section \<open>The contract FheAsAServiceFHE\<close>

text \<open>
  The protocol lives in the Solidity contract \<^verbatim>\<open>FheAsAServiceFHE\<close> that follows the
  dashboard code in \<^verbatim>\<open>src/frontend/web/src/App.tsx\<close> (lines 719 to 970). This theory
  embeds that contract: storage is a record, every external function takes the call
  environment and the storage and returns either the error it reverts with or the new
  storage, and the event log is a field of the storage so that a revert discards the
  events together with the writes.

  Solidity's \<^verbatim>\<open>uint256\<close> is \<^typ>\<open>256 word\<close>. The contract is compiled with
  \<^verbatim>\<open>pragma solidity ^0.8.24\<close>, whose \<^verbatim>\<open>+\<close> and \<^verbatim>\<open>++\<close> revert with a panic
  instead of wrapping; \<open>checked_add\<close> writes that out.
\<close>

type_synonym uint256 = "256 word"
type_synonym address = "160 word"
type_synonym bytes = "8 word list"

subsection \<open>Ciphertext handles and hashes\<close>

text \<open>
  The types \<^verbatim>\<open>euint32\<close> and \<^verbatim>\<open>ebool\<close> of the imported library
  \<^verbatim>\<open>@fhevm/solidity/lib/FHE.sol\<close> are \<^verbatim>\<open>bytes32\<close> handles of ciphertexts; the
  library is not part of the repository, and the specification treats it as an opaque
  capability. A handle is modelled symbolically, as the term that produced it:
  \<open>Uninit\<close> is the zero handle of a variable never assigned, \<open>Ext k\<close> a ciphertext
  that came from outside the contract, \<open>AsEuint32 n\<close> and \<open>AsEbool b\<close> the trivial
  encryptions \<^verbatim>\<open>FHE.asEuint32(n)\<close> and \<^verbatim>\<open>FHE.asEbool(b)\<close>, and \<open>Add\<close>, \<open>Div\<close>,
  \<open>Ge\<close>, \<open>Or\<close> the results of \<^verbatim>\<open>a.add(b)\<close>, \<^verbatim>\<open>a.div(b)\<close>, \<^verbatim>\<open>a.ge(b)\<close>,
  \<^verbatim>\<open>a.or(b)\<close>. Distinct terms are distinct handles: the library derives a result's
  handle by hashing the operation with its operands' handles, and the model takes that
  hash as free of collisions. \<^verbatim>\<open>keccak256(abi.encode(cts, address(this)))\<close> is
  modelled the same way, by the constructor \<open>Keccak\<close>; \<open>Zero32\<close> is the
  \<^verbatim>\<open>bytes32(0)\<close> that a storage slot holds before it is written.
\<close>

datatype handle =
    Uninit
  | Ext nat
  | AsEuint32 "32 word"
  | AsEbool bool
  | Add handle handle
  | Div handle handle
  | Ge handle handle
  | Or handle handle

datatype bytes32 = Zero32 | Keccak "handle list" address

text \<open>\<^verbatim>\<open>x.isInitialized()\<close> on a handle: the handle is not the zero handle.\<close>

definition isInitialized :: "handle \<Rightarrow> bool" where
  "isInitialized x = (x \<noteq> Uninit)"

subsection \<open>Errors and events\<close>

text \<open>
  The custom errors of the contract, under their names in the source, and three reverts
  that come from outside its own \<^verbatim>\<open>revert\<close> statements: \<open>Panic\<close> for an
  arithmetic overflow of checked \<^verbatim>\<open>uint256\<close> arithmetic, \<open>SignaturesRejected\<close> for
  the revert inside \<^verbatim>\<open>FHE.checkSignatures\<close>, and \<open>DecodeFailed\<close> for a revert of
  \<^verbatim>\<open>slice\<close> or \<^verbatim>\<open>abi.decode\<close>. The error \<^verbatim>\<open>BatchClosed\<close> and the event
  \<^verbatim>\<open>BatchClosed\<close> share their name in the source; the event is \<open>BatchClosedEvent\<close>
  here.
\<close>

datatype error =
    NotOwner
  | NotProvider
  | Paused
  | CooldownActive
  | BatchClosed
  | InvalidBatch
  | ReplayAttempt
  | StateMismatch
  | InvalidProof
  | AlreadyInitialized
  | NotInitialized
  | Panic
  | SignaturesRejected
  | DecodeFailed

datatype event =
    OwnershipTransferred address address
  | ProviderAdded address
  | ProviderRemoved address
  | CooldownSet uint256 uint256
  | ContractPaused
  | ContractUnpaused
  | BatchOpened uint256
  | BatchClosedEvent uint256
  | DataSubmitted address uint256 uint256
  | DecryptionRequested uint256 uint256 bytes32
  | DecryptionCompleted uint256 uint256 "uint256 list" "bool list"

subsection \<open>Storage\<close>

record DecryptionContext =
  batchId :: uint256
  stateHash :: bytes32
  processed :: bool

text \<open>
  The mappings \<^verbatim>\<open>isProvider\<close>, \<^verbatim>\<open>lastSubmissionTime\<close> and
  \<^verbatim>\<open>lastDecryptionRequestTime\<close> are total functions (a key never written reads as
  zero). The mappings \<^verbatim>\<open>decryptionContexts\<close>, \<^verbatim>\<open>encryptedData\<close> and
  \<^verbatim>\<open>encryptedFlags\<close> are partial maps, so that "a context was stored under this id"
  can be said; reading them goes through \<open>context_at\<close> and \<open>handle_at\<close>,
  which give Solidity's zero value for a key never written.
\<close>

record storage =
  owner :: address
  isProvider :: "address \<Rightarrow> bool"
  lastSubmissionTime :: "address \<Rightarrow> uint256"
  lastDecryptionRequestTime :: "address \<Rightarrow> uint256"
  cooldownSeconds :: uint256
  paused :: bool
  currentBatchId :: uint256
  batchOpen :: bool
  decryptionContexts :: "uint256 \<rightharpoonup> DecryptionContext"
  encryptedData :: "uint256 \<rightharpoonup> handle"
  encryptedFlags :: "uint256 \<rightharpoonup> handle"
  dataCount :: uint256
  events :: "event list"

definition zero_context :: DecryptionContext where
  "zero_context = \<lparr>batchId = 0, stateHash = Zero32, processed = False\<rparr>"

definition context_at :: "storage \<Rightarrow> uint256 \<Rightarrow> DecryptionContext" where
  "context_at s requestId =
     (case decryptionContexts s requestId of None \<Rightarrow> zero_context | Some c \<Rightarrow> c)"

definition handle_at :: "(uint256 \<rightharpoonup> handle) \<Rightarrow> uint256 \<Rightarrow> handle" where
  "handle_at m i = (case m i of None \<Rightarrow> Uninit | Some h \<Rightarrow> h)"

text \<open>
  What a call sees besides the storage: \<^verbatim>\<open>msg.sender\<close>, \<^verbatim>\<open>block.timestamp\<close>,
  \<^verbatim>\<open>address(this)\<close>, and the three answers of the collaborators outside the
  repository: \<open>fhe_initialized\<close> is what the argument-free \<^verbatim>\<open>FHE.isInitialized()\<close>
  returns, \<open>oracle_request_id\<close> is the identifier \<^verbatim>\<open>FHE.requestDecryption\<close>
  returns, and \<open>signatures_valid requestId cleartexts proof\<close> tells whether
  \<^verbatim>\<open>FHE.checkSignatures\<close> returns (it reverts otherwise). The arithmetic of the
  library and \<^verbatim>\<open>FHE.requestDecryption\<close> are taken to return; gas is not modelled.
\<close>

record env =
  msg_sender :: address
  block_timestamp :: uint256
  this_address :: address
  fhe_initialized :: bool
  oracle_request_id :: uint256
  signatures_valid :: "uint256 \<Rightarrow> bytes \<Rightarrow> bytes \<Rightarrow> bool"

subsection \<open>Checked arithmetic and the modifiers\<close>

definition checked_add :: "uint256 \<Rightarrow> uint256 \<Rightarrow> error + uint256" where
  "checked_add a b = (if unat a + unat b < 2 ^ 256 then Inr (a + b) else Inl Panic)"

text \<open>
  A modifier either reverts with an error or lets the body run (\<^verbatim>\<open>_;\<close>).
  \<open>require_ok c k\<close> runs \<open>k\<close> when the check \<open>c\<close> raised nothing.
\<close>

definition require_ok :: "error option \<Rightarrow> (error + 'a) \<Rightarrow> error + 'a" where
  "require_ok c k = (case c of None \<Rightarrow> k | Some e \<Rightarrow> Inl e)"

definition onlyOwner :: "env \<Rightarrow> storage \<Rightarrow> error option" where
  "onlyOwner e s = (if msg_sender e \<noteq> owner s then Some NotOwner else None)"

definition onlyProvider :: "env \<Rightarrow> storage \<Rightarrow> error option" where
  "onlyProvider e s = (if \<not> isProvider s (msg_sender e) then Some NotProvider else None)"

definition whenNotPaused :: "storage \<Rightarrow> error option" where
  "whenNotPaused s = (if paused s then Some Paused else None)"

definition submissionCooldown :: "env \<Rightarrow> storage \<Rightarrow> address \<Rightarrow> error option" where
  "submissionCooldown e s submitter =
     (case checked_add (lastSubmissionTime s submitter) (cooldownSeconds s) of
        Inl err \<Rightarrow> Some err
      | Inr limit \<Rightarrow> if block_timestamp e < limit then Some CooldownActive else None)"

definition decryptionRequestCooldown :: "env \<Rightarrow> storage \<Rightarrow> address \<Rightarrow> error option" where
  "decryptionRequestCooldown e s requester =
     (case checked_add (lastDecryptionRequestTime s requester) (cooldownSeconds s) of
        Inl err \<Rightarrow> Some err
      | Inr limit \<Rightarrow> if block_timestamp e < limit then Some CooldownActive else None)"

subsection \<open>Administration and the batch lifecycle\<close>

definition constructor :: "env \<Rightarrow> storage" where
  "constructor e =
     \<lparr>owner = msg_sender e,
      isProvider = (\<lambda>a. a = msg_sender e),
      lastSubmissionTime = (\<lambda>_. 0),
      lastDecryptionRequestTime = (\<lambda>_. 0),
      cooldownSeconds = 60,
      paused = False,
      currentBatchId = 1,
      batchOpen = False,
      decryptionContexts = Map.empty,
      encryptedData = Map.empty,
      encryptedFlags = Map.empty,
      dataCount = 0,
      events = [ProviderAdded (msg_sender e)]\<rparr>"

definition emit :: "event \<Rightarrow> storage \<Rightarrow> storage" where
  "emit ev s = s\<lparr>events := events s @ [ev]\<rparr>"

definition transferOwnership :: "env \<Rightarrow> address \<Rightarrow> storage \<Rightarrow> error + storage" where
  "transferOwnership e newOwner s =
     require_ok (onlyOwner e s)
       (let previousOwner = owner s in
        Inr (emit (OwnershipTransferred previousOwner newOwner) (s\<lparr>owner := newOwner\<rparr>)))"

definition addProvider :: "env \<Rightarrow> address \<Rightarrow> storage \<Rightarrow> error + storage" where
  "addProvider e provider s =
     require_ok (onlyOwner e s)
       (if \<not> isProvider s provider
        then Inr (emit (ProviderAdded provider)
                    (s\<lparr>isProvider := (isProvider s)(provider := True)\<rparr>))
        else Inr s)"

definition removeProvider :: "env \<Rightarrow> address \<Rightarrow> storage \<Rightarrow> error + storage" where
  "removeProvider e provider s =
     require_ok (onlyOwner e s)
       (if isProvider s provider
        then Inr (emit (ProviderRemoved provider)
                    (s\<lparr>isProvider := (isProvider s)(provider := False)\<rparr>))
        else Inr s)"

definition setCooldown :: "env \<Rightarrow> uint256 \<Rightarrow> storage \<Rightarrow> error + storage" where
  "setCooldown e newCooldownSeconds s =
     require_ok (onlyOwner e s)
       (let oldCooldown = cooldownSeconds s in
        Inr (emit (CooldownSet oldCooldown newCooldownSeconds)
               (s\<lparr>cooldownSeconds := newCooldownSeconds\<rparr>)))"

definition pause :: "env \<Rightarrow> storage \<Rightarrow> error + storage" where
  "pause e s =
     require_ok (onlyOwner e s) (require_ok (whenNotPaused s)
       (Inr (emit ContractPaused (s\<lparr>paused := True\<rparr>))))"

definition unpause :: "env \<Rightarrow> storage \<Rightarrow> error + storage" where
  "unpause e s =
     require_ok (onlyOwner e s) (Inr (emit ContractUnpaused (s\<lparr>paused := False\<rparr>)))"

definition openBatch :: "env \<Rightarrow> storage \<Rightarrow> error + storage" where
  "openBatch e s =
     require_ok (onlyOwner e s) (require_ok (whenNotPaused s)
       (case (if batchOpen s then checked_add (currentBatchId s) 1
              else Inr (currentBatchId s)) of
          Inl err \<Rightarrow> Inl err
        | Inr b \<Rightarrow> Inr (emit (BatchOpened b) (s\<lparr>currentBatchId := b, batchOpen := True\<rparr>))))"

definition closeBatch :: "env \<Rightarrow> storage \<Rightarrow> error + storage" where
  "closeBatch e s =
     require_ok (onlyOwner e s) (require_ok (whenNotPaused s)
       (if \<not> batchOpen s then Inl BatchClosed
        else Inr (emit (BatchClosedEvent (currentBatchId s)) (s\<lparr>batchOpen := False\<rparr>))))"

subsection \<open>Submission\<close>

text \<open>
  The two overloads of \<^verbatim>\<open>_initIfNeeded\<close> have the same body; \<open>initIfNeeded\<close> is
  both. It reverts when the handle it is given is initialised, and when the library is
  not.
\<close>

definition initIfNeeded :: "env \<Rightarrow> handle \<Rightarrow> error option" where
  "initIfNeeded e x =
     (if isInitialized x then Some AlreadyInitialized
      else if \<not> fhe_initialized e then Some NotInitialized
      else None)"

definition submitEncryptedData :: "env \<Rightarrow> handle \<Rightarrow> handle \<Rightarrow> storage \<Rightarrow> error + storage" where
  "submitEncryptedData e data flag s =
     require_ok (onlyProvider e s) (require_ok (whenNotPaused s)
       (require_ok (submissionCooldown e s (msg_sender e))
         (if \<not> batchOpen s then Inl BatchClosed
          else require_ok (initIfNeeded e data) (require_ok (initIfNeeded e flag)
            (case checked_add (dataCount s) 1 of
               Inl err \<Rightarrow> Inl err
             | Inr n \<Rightarrow>
                 Inr (emit (DataSubmitted (msg_sender e) (currentBatchId s) n)
                        (s\<lparr>dataCount := n,
                           encryptedData := (encryptedData s)(n \<mapsto> data),
                           encryptedFlags := (encryptedFlags s)(n \<mapsto> flag),
                           lastSubmissionTime :=
                             (lastSubmissionTime s)(msg_sender e := block_timestamp e)\<rparr>)))))))"

subsection \<open>The fold over the stored contributions\<close>

text \<open>
  \<^verbatim>\<open>requestAggregateDecryption\<close> and \<^verbatim>\<open>myCallback\<close> contain the same loop, the
  same two lines after it and the same three assignments to \<^verbatim>\<open>cts\<close>;
  \<open>aggregate_loop\<close> is the loop, entered at \<^verbatim>\<open>i = 1\<close> with the three accumulators,
  and \<open>current_ciphertexts\<close> the array \<^verbatim>\<open>cts\<close> both functions build. The loop
  counter is a checked \<^verbatim>\<open>uint256\<close>: \<^verbatim>\<open>i++\<close> after the last round panics when
  \<^verbatim>\<open>dataCount\<close> is the largest \<^verbatim>\<open>uint256\<close>.
\<close>

function aggregate_loop ::
  "(uint256 \<rightharpoonup> handle) \<Rightarrow> (uint256 \<rightharpoonup> handle) \<Rightarrow> uint256 \<Rightarrow> uint256 \<Rightarrow>
   handle \<times> handle \<times> handle \<Rightarrow> error + handle \<times> handle \<times> handle" where
  "aggregate_loop dat flg n i (summed, count, anyFlagTrue) =
     (if i \<le> n then
        (if i = - 1 then Inl Panic
         else aggregate_loop dat flg n (i + 1)
                (Add summed (handle_at dat i),
                 Add count (AsEuint32 1),
                 Or anyFlagTrue (handle_at flg i)))
      else Inr (summed, count, anyFlagTrue))"
  by pat_completeness auto
termination
proof (relation "measure (\<lambda>(dat, flg, n, i, acc). Suc (unat n) - unat i)")
  show "wf (measure (\<lambda>(dat, flg, n, i, acc). Suc (unat n) - unat i))"
    by simp
next
  fix dat flg :: "uint256 \<rightharpoonup> handle" and n i :: uint256 and summed count anyFlagTrue :: handle
  assume le: "i \<le> n" and nm: "i \<noteq> - 1"
  from nm have "1 + i \<noteq> 0"
    by (metis add_eq_0_iff)
  then have "unat (1 + i) = Suc (unat i)"
    by (rule unatSuc)
  then have "unat (i + 1) = Suc (unat i)"
    by (simp add: add.commute)
  moreover from le have "unat i \<le> unat n"
    by (simp add: word_le_nat_alt)
  ultimately show
    "((dat, flg, n, i + 1, Add summed (handle_at dat i), Add count (AsEuint32 1),
        Or anyFlagTrue (handle_at flg i)),
       (dat, flg, n, i, summed, count, anyFlagTrue))
     \<in> measure (\<lambda>(dat, flg, n, i, acc). Suc (unat n) - unat i)"
    by simp
qed

declare aggregate_loop.simps [simp del]

definition folded :: "storage \<Rightarrow> error + handle \<times> handle \<times> handle" where
  "folded s =
     aggregate_loop (encryptedData s) (encryptedFlags s) (dataCount s) 1
       (AsEuint32 0, AsEuint32 0, AsEbool False)"

definition current_ciphertexts :: "storage \<Rightarrow> error + handle list" where
  "current_ciphertexts s =
     (case folded s of
        Inl err \<Rightarrow> Inl err
      | Inr (summed, count, anyFlagTrue) \<Rightarrow>
          (let average = Div summed count;
               isAverageHigh = Ge average (AsEuint32 100)
           in Inr [average, anyFlagTrue, isAverageHigh]))"

definition hashCiphertexts :: "env \<Rightarrow> handle list \<Rightarrow> bytes32" where
  "hashCiphertexts e cts = Keccak cts (this_address e)"

subsection \<open>Requesting the reveal\<close>

definition requestAggregateDecryption :: "env \<Rightarrow> storage \<Rightarrow> error + storage" where
  "requestAggregateDecryption e s =
     require_ok (whenNotPaused s)
       (require_ok (decryptionRequestCooldown e s (msg_sender e))
         (if dataCount s = 0 then Inl InvalidBatch
          else if batchOpen s then Inl BatchClosed
          else
            (case current_ciphertexts s of
               Inl err \<Rightarrow> Inl err
             | Inr cts \<Rightarrow>
                 (let h = hashCiphertexts e cts;
                      requestId = oracle_request_id e
                  in Inr (emit (DecryptionRequested requestId (currentBatchId s) h)
                            (s\<lparr>decryptionContexts := (decryptionContexts s)
                                  (requestId \<mapsto>
                                     \<lparr>batchId = currentBatchId s, stateHash = h,
                                      processed = False\<rparr>),
                               lastDecryptionRequestTime :=
                                 (lastDecryptionRequestTime s)
                                   (msg_sender e := block_timestamp e)\<rparr>))))))"

subsection \<open>The callback\<close>

text \<open>
  \<^verbatim>\<open>cleartexts.slice(start, 32)\<close> is the 32 bytes from offset \<open>start\<close>; the source
  defines no \<^verbatim>\<open>slice\<close>, and the model takes the usual one, which reverts when the
  bytes are not there. \<^verbatim>\<open>abi.decode(_, (uint256))\<close> reads the 32 bytes as a
  big-endian number. \<^verbatim>\<open>abi.decode(_, (bool))\<close> reads the same number and reverts
  unless it is 0 or 1.
\<close>

definition slice :: "bytes \<Rightarrow> nat \<Rightarrow> nat \<Rightarrow> error + bytes" where
  "slice b start len =
     (if start + len \<le> length b then Inr (take len (drop start b)) else Inl DecodeFailed)"

definition be_uint256 :: "bytes \<Rightarrow> uint256" where
  "be_uint256 b = foldl (\<lambda>acc byte. acc * 256 + ucast byte) 0 b"

definition abi_decode_uint256 :: "bytes \<Rightarrow> error + uint256" where
  "abi_decode_uint256 b =
     (if length b < 32 then Inl DecodeFailed else Inr (be_uint256 (take 32 b)))"

definition abi_decode_bool :: "bytes \<Rightarrow> error + bool" where
  "abi_decode_bool b =
     (case abi_decode_uint256 b of
        Inl err \<Rightarrow> Inl err
      | Inr v \<Rightarrow> if v = 0 then Inr False else if v = 1 then Inr True else Inl DecodeFailed)"

definition uint256_at :: "bytes \<Rightarrow> nat \<Rightarrow> error + uint256" where
  "uint256_at cleartexts start =
     (case slice cleartexts start 32 of Inl err \<Rightarrow> Inl err | Inr b \<Rightarrow> abi_decode_uint256 b)"

definition bool_at :: "bytes \<Rightarrow> nat \<Rightarrow> error + bool" where
  "bool_at cleartexts start =
     (case slice cleartexts start 32 of Inl err \<Rightarrow> Inl err | Inr b \<Rightarrow> abi_decode_bool b)"

definition myCallback :: "env \<Rightarrow> uint256 \<Rightarrow> bytes \<Rightarrow> bytes \<Rightarrow> storage \<Rightarrow> error + storage" where
  "myCallback e requestId cleartexts prf s =
     (if processed (context_at s requestId) then Inl ReplayAttempt
      else
        (case current_ciphertexts s of
           Inl err \<Rightarrow> Inl err
         | Inr cts \<Rightarrow>
             if hashCiphertexts e cts \<noteq> stateHash (context_at s requestId)
             then Inl StateMismatch
             else if \<not> signatures_valid e requestId cleartexts prf
             then Inl SignaturesRejected
             else
               (case uint256_at cleartexts 0 of
                  Inl err \<Rightarrow> Inl err
                | Inr average \<Rightarrow>
               (case bool_at cleartexts 32 of
                  Inl err \<Rightarrow> Inl err
                | Inr anyFlagTrue \<Rightarrow>
               (case uint256_at cleartexts 64 of
                  Inl err \<Rightarrow> Inl err
                | Inr isAverageHigh \<Rightarrow>
                    (let results = [average, isAverageHigh];
                         flags = [anyFlagTrue];
                         s1 = s\<lparr>decryptionContexts := (decryptionContexts s)
                                  (requestId \<mapsto> (context_at s requestId)\<lparr>processed := True\<rparr>)\<rparr>
                     in Inr (emit (DecryptionCompleted requestId
                                     (batchId (context_at s1 requestId)) results flags)
                               s1)))))))"

subsection \<open>Transactions\<close>

text \<open>
  A call that reverts leaves the storage and the event log as they were before it; a
  call that returns commits what it wrote. \<open>run\<close> is a sequence of transactions, each
  with its own environment.
\<close>

datatype call =
    TransferOwnership address
  | AddProvider address
  | RemoveProvider address
  | SetCooldown uint256
  | Pause
  | Unpause
  | OpenBatch
  | CloseBatch
  | SubmitEncryptedData handle handle
  | RequestAggregateDecryption
  | MyCallback uint256 bytes bytes

fun dispatch :: "env \<Rightarrow> call \<Rightarrow> storage \<Rightarrow> error + storage" where
  "dispatch e (TransferOwnership a) s = transferOwnership e a s"
| "dispatch e (AddProvider a) s = addProvider e a s"
| "dispatch e (RemoveProvider a) s = removeProvider e a s"
| "dispatch e (SetCooldown c) s = setCooldown e c s"
| "dispatch e Pause s = pause e s"
| "dispatch e Unpause s = unpause e s"
| "dispatch e OpenBatch s = openBatch e s"
| "dispatch e CloseBatch s = closeBatch e s"
| "dispatch e (SubmitEncryptedData d f) s = submitEncryptedData e d f s"
| "dispatch e RequestAggregateDecryption s = requestAggregateDecryption e s"
| "dispatch e (MyCallback r c p) s = myCallback e r c p s"

definition after :: "storage \<Rightarrow> error + storage \<Rightarrow> storage" where
  "after s r = (case r of Inl _ \<Rightarrow> s | Inr s' \<Rightarrow> s')"

definition transact :: "env \<times> call \<Rightarrow> storage \<Rightarrow> storage" where
  "transact ec s = after s (dispatch (fst ec) (snd ec) s)"

fun run :: "(env \<times> call) list \<Rightarrow> storage \<Rightarrow> storage" where
  "run [] s = s"
| "run (ec # rest) s = run rest (transact ec s)"

subsection \<open>Notions the statements use\<close>

text \<open>
  The decryption oracle is assumed to hand out each request identifier once
  (specification, section 9). \<open>reissues requestId ec\<close> says that the transaction
  \<open>ec\<close> is a reveal request that the oracle answers with \<open>requestId\<close> again.
\<close>

definition reissues :: "uint256 \<Rightarrow> env \<times> call \<Rightarrow> bool" where
  "reissues requestId ec =
     (snd ec = RequestAggregateDecryption \<and> oracle_request_id (fst ec) = requestId)"

text \<open>How many \<^verbatim>\<open>add\<close> results a handle is nested in, on the left.\<close>

fun add_depth :: "handle \<Rightarrow> nat" where
  "add_depth (Add a b) = Suc (add_depth a)"
| "add_depth _ = 0"

text \<open>The \<^verbatim>\<open>dataId\<close> of every \<^verbatim>\<open>DataSubmitted\<close> event of a log, in order.\<close>

fun submitted_ids :: "event list \<Rightarrow> uint256 list" where
  "submitted_ids [] = []"
| "submitted_ids (DataSubmitted provider batch dataId # evs) = dataId # submitted_ids evs"
| "submitted_ids (_ # evs) = submitted_ids evs"

text \<open>
  The identifiers are sequential: the keys written in \<^verbatim>\<open>encryptedData\<close> and
  \<^verbatim>\<open>encryptedFlags\<close> are the numbers from 1 to \<^verbatim>\<open>dataCount\<close>, and the
  \<^verbatim>\<open>DataSubmitted\<close> events carry 1, 2, ..., \<^verbatim>\<open>dataCount\<close> in this order.
\<close>

definition sequential_ids :: "storage \<Rightarrow> bool" where
  "sequential_ids s \<longleftrightarrow>
     dom (encryptedData s) = {i. 1 \<le> i \<and> i \<le> dataCount s}
     \<and> dom (encryptedFlags s) = {i. 1 \<le> i \<and> i \<le> dataCount s}
     \<and> map unat (submitted_ids (events s)) = [1..<Suc (unat (dataCount s))]"


text \<open>
  Modelled from the spec: the plaintext behind a handle. The arithmetic on ciphertexts
  is done by the imported FHE library and the decryption by the oracle, neither of
  which is in the repository; the specification describes them as the capability
  "encrypted value, homomorphic add/or/div/compare, request decryption". \<open>decrypt key
  h\<close> is the plaintext the oracle would return for \<open>h\<close>, where \<open>key\<close> gives the
  plaintext of the ciphertexts that came from outside. An \<^verbatim>\<open>euint32\<close> holds a
  32-bit number and its addition wraps; the division has no result when the divisor is
  zero ("division fails conceptually if count is zero"), and neither has an operation on
  operands of the wrong type or on the zero handle.
\<close>

datatype plaintext = U32 "32 word" | B bool

fun decrypt :: "(nat \<Rightarrow> plaintext) \<Rightarrow> handle \<Rightarrow> plaintext option" where
  "decrypt key Uninit = None"
| "decrypt key (Ext k) = Some (key k)"
| "decrypt key (AsEuint32 n) = Some (U32 n)"
| "decrypt key (AsEbool b) = Some (B b)"
| "decrypt key (Add a b) =
     (case (decrypt key a, decrypt key b) of
        (Some (U32 x), Some (U32 y)) \<Rightarrow> Some (U32 (x + y))
      | _ \<Rightarrow> None)"
| "decrypt key (Div a b) =
     (case (decrypt key a, decrypt key b) of
        (Some (U32 x), Some (U32 y)) \<Rightarrow> if y = 0 then None else Some (U32 (x div y))
      | _ \<Rightarrow> None)"
| "decrypt key (Ge a b) =
     (case (decrypt key a, decrypt key b) of
        (Some (U32 x), Some (U32 y)) \<Rightarrow> Some (B (y \<le> x))
      | _ \<Rightarrow> None)"
| "decrypt key (Or a b) =
     (case (decrypt key a, decrypt key b) of
        (Some (B x), Some (B y)) \<Rightarrow> Some (B (x \<or> y))
      | _ \<Rightarrow> None)"

subsection \<open>A sample deployment\<close>

text \<open>
  Account 1 deploys the contract at time 1000, opens a batch, submits one contribution,
  closes the batch at 1100 and requests the reveal at 1200; the oracle answers with the
  identifier 5. In \<open>resubmitted\<close> the owner has opened a batch again at 1300 and
  submitted a second contribution. In \<open>halted\<close> the owner has paused the contract
  right after deploying it. \<^verbatim>\<open>submitEncryptedData\<close> admits only handles that
  are not initialised, so the contributions are \<open>Uninit\<close>.
\<close>

definition sample_env :: "uint256 \<Rightarrow> env" where
  "sample_env t = \<lparr>msg_sender = 1, block_timestamp = t, this_address = 7,
      fhe_initialized = True, oracle_request_id = 5, signatures_valid = (\<lambda>_ _ _. True)\<rparr>"

definition deployed :: storage where
  "deployed = constructor (sample_env 1000)"

definition opened :: storage where
  "opened = transact (sample_env 1000, OpenBatch) deployed"

definition halted :: storage where
  "halted = transact (sample_env 1000, Pause) deployed"

definition collecting :: storage where
  "collecting = transact (sample_env 1000, SubmitEncryptedData Uninit Uninit) opened"

definition closed :: storage where
  "closed = transact (sample_env 1100, CloseBatch) collecting"

definition requested :: storage where
  "requested = transact (sample_env 1200, RequestAggregateDecryption) closed"

definition resubmitted :: storage where
  "resubmitted = run [(sample_env 1300, OpenBatch),
                      (sample_env 1300, SubmitEncryptedData Uninit Uninit)] requested"

text \<open>
  The cleartexts the oracle returns for the sample request: three 32-byte words, the
  numbers 20, 1 and 0. \<open>finalized\<close> is the storage after the callback delivered
  them, \<open>sample_cts\<close> the three handles the request of the sample sent for
  decryption, and \<open>stranger_env\<close> a call by account 9, which is neither the owner nor
  a provider.
\<close>

definition abi_word :: "8 word \<Rightarrow> bytes" where
  "abi_word b = replicate 31 0 @ [b]"

definition sample_cleartexts :: bytes where
  "sample_cleartexts = abi_word 20 @ abi_word 1 @ abi_word 0"

definition finalized :: storage where
  "finalized = transact (sample_env 1400, MyCallback 5 sample_cleartexts []) requested"

definition sample_cts :: "handle list" where
  "sample_cts =
     [Div (Add (AsEuint32 0) Uninit) (Add (AsEuint32 0) (AsEuint32 1)),
      Or (AsEbool False) Uninit,
      Ge (Div (Add (AsEuint32 0) Uninit) (Add (AsEuint32 0) (AsEuint32 1))) (AsEuint32 100)]"

definition stranger_env :: env where
  "stranger_env = (sample_env 1200)\<lparr>msg_sender := 9\<rparr>"


definition odd_cleartexts :: bytes where
  "odd_cleartexts = abi_word 20 @ abi_word 1 @ abi_word 2"

section \<open>Properties\<close>

subsection \<open>Unfolding and evaluation\<close>

lemmas admin_defs =
  transferOwnership_def addProvider_def removeProvider_def setCooldown_def pause_def
  unpause_def openBatch_def closeBatch_def

lemmas guard_defs = require_ok_def onlyOwner_def onlyProvider_def whenNotPaused_def

lemmas call_defs =
  transact_def after_def admin_defs guard_defs emit_def submitEncryptedData_def
  requestAggregateDecryption_def myCallback_def submissionCooldown_def
  decryptionRequestCooldown_def checked_add_def initIfNeeded_def isInitialized_def
  current_ciphertexts_def folded_def hashCiphertexts_def context_at_def handle_at_def
  zero_context_def constructor_def Let_def

lemmas sample_defs = sample_env_def deployed_def opened_def collecting_def closed_def
  requested_def resubmitted_def stranger_env_def halted_def

lemma two_le_one: "((2::uint256) \<le> 1) = False"
  by (simp add: word_le_nat_alt)

lemma context_at_emit [simp]: "context_at (emit ev s) r = context_at s r"
  by (simp add: context_at_def emit_def)

lemma dataCount_emit [simp]: "dataCount (emit ev s) = dataCount s"
  by (simp add: emit_def)

lemma events_emit [simp]: "events (emit ev s) = events s @ [ev]"
  by (simp add: emit_def)

subsection \<open>Checked arithmetic\<close>

lemma checked_add_unat:
  assumes "checked_add a b = Inr c"
  shows "c = a + b" and "unat c = unat a + unat b"
proof -
  from assms have lt: "unat a + unat b < 2 ^ 256" and c: "c = a + b"
    by (auto simp: checked_add_def split: if_splits)
  show "c = a + b" by (rule c)
  from lt have "unat (a + b) = unat a + unat b"
    using unat_add_lem [of a b] by simp
  with c show "unat c = unat a + unat b" by simp
qed

lemma unat_plus_one:
  fixes i :: uint256
  assumes "i \<noteq> - 1"
  shows "unat (i + 1) = Suc (unat i)"
proof -
  from assms have "1 + i \<noteq> 0"
    by (metis add_eq_0_iff)
  then have "unat (1 + i) = Suc (unat i)"
    by (rule unatSuc)
  then show ?thesis
    by (simp add: add.commute)
qed

lemma below_not_max:
  fixes i n :: uint256
  assumes "i \<le> n" "n \<noteq> - 1"
  shows "i \<noteq> - 1"
  using assms by (metis word_order.extremum_unique)

subsection \<open>What single calls do\<close>

lemma submit_effect:
  assumes "submitEncryptedData e d f s = Inr s'"
  shows "decryptionContexts s' = decryptionContexts s"
    and "unat (dataCount s') = Suc (unat (dataCount s))"
  using assms
  by (auto simp: submitEncryptedData_def guard_defs emit_def
      split: if_splits option.splits sum.splits dest: checked_add_unat)

lemma request_effect:
  assumes "requestAggregateDecryption e s = Inr s'"
  shows "\<exists>cts. current_ciphertexts s = Inr cts
     \<and> decryptionContexts s' (oracle_request_id e) =
         Some \<lparr>batchId = currentBatchId s, stateHash = hashCiphertexts e cts,
               processed = False\<rparr>
     \<and> dataCount s' = dataCount s"
  using assms
  by (auto simp: requestAggregateDecryption_def guard_defs emit_def Let_def
      split: if_splits option.splits sum.splits)

subsection \<open>The fold\<close>

lemma aggregate_loop_returns:
  "n \<noteq> - 1 \<Longrightarrow> \<exists>r. aggregate_loop dat flg n i acc = Inr r"
proof (induction dat flg n i acc rule: aggregate_loop.induct)
  case (1 dat flg n i summed count anyFlagTrue)
  show ?case
  proof (cases "i \<le> n")
    case True
    from True "1.prems" have "i \<noteq> - 1" by (rule below_not_max)
    with True "1.IH" "1.prems" show ?thesis
      by (simp add: aggregate_loop.simps [of dat flg n i])
  next
    case False
    then show ?thesis
      by (simp add: aggregate_loop.simps [of dat flg n i])
  qed
qed

text \<open>
  Every round wraps the counter in one more \<^verbatim>\<open>add\<close>, so the handle of the count
  tells how many rounds the loop made.
\<close>

lemma aggregate_loop_depth:
  "aggregate_loop dat flg n i (a, c, f) = Inr (a', c', f') \<Longrightarrow> unat i \<le> Suc (unat n) \<Longrightarrow>
   add_depth c' = add_depth c + (Suc (unat n) - unat i)"
proof (induction dat flg n i "(a, c, f)" arbitrary: a c f rule: aggregate_loop.induct)
  case (1 dat flg n i summed count anyFlagTrue)
  show ?case
  proof (cases "i \<le> n")
    case True
    with "1.prems"(1) have nm: "i \<noteq> - 1"
      by (auto simp: aggregate_loop.simps [of dat flg n i] split: if_splits)
    from True have le: "unat i \<le> unat n"
      by (simp add: word_le_nat_alt)
    from nm have suc: "unat (i + 1) = Suc (unat i)"
      by (rule unat_plus_one)
    from True nm "1.prems"(1)
    have "aggregate_loop dat flg n (i + 1)
            (Add summed (handle_at dat i), Add count (AsEuint32 1),
             Or anyFlagTrue (handle_at flg i)) = Inr (a', c', f')"
      by (simp add: aggregate_loop.simps [of dat flg n i])
    with True nm have "add_depth c' =
        add_depth (Add count (AsEuint32 1)) + (Suc (unat n) - unat (i + 1))"
      using le suc by (intro "1.hyps") simp_all
    with le suc show ?thesis by simp
  next
    case False
    then have "unat n < unat i"
      by (simp add: word_le_nat_alt)
    with "1.prems"(2) have "Suc (unat n) - unat i = 0" by simp
    moreover from False "1.prems"(1) have "c' = count"
      by (simp add: aggregate_loop.simps [of dat flg n i])
    ultimately show ?thesis by simp
  qed
qed

lemma folded_depth:
  assumes "folded s = Inr (a, c, f)"
  shows "add_depth c = unat (dataCount s)"
  using aggregate_loop_depth [OF assms [unfolded folded_def]] by simp

lemma folded_returns:
  "dataCount s \<noteq> - 1 \<Longrightarrow> \<exists>a c f. folded s = Inr (a, c, f)"
  using aggregate_loop_returns [of "dataCount s"] unfolding folded_def
  by (metis prod_cases3)

lemma current_ciphertexts_shape:
  assumes "current_ciphertexts s = Inr cts"
  shows "\<exists>a c f. folded s = Inr (a, c, f) \<and> cts = [Div a c, f, Ge (Div a c) (AsEuint32 100)]"
  using assms by (auto simp: current_ciphertexts_def Let_def split: sum.splits)

lemma current_ciphertexts_returns:
  assumes "dataCount s \<noteq> - 1"
  shows "\<exists>cts. current_ciphertexts s = Inr cts"
  using folded_returns [OF assms] by (auto simp: current_ciphertexts_def Let_def)

lemma current_ciphertexts_differ:
  assumes "current_ciphertexts s = Inr cts" "current_ciphertexts s' = Inr cts'"
    and "dataCount s \<noteq> dataCount s'"
  shows "cts \<noteq> cts'"
proof
  assume eq: "cts = cts'"
  from assms(1) obtain a c f where 1: "folded s = Inr (a, c, f)"
      "cts = [Div a c, f, Ge (Div a c) (AsEuint32 100)]"
    using current_ciphertexts_shape by blast
  from assms(2) obtain a' c' f' where 2: "folded s' = Inr (a', c', f')"
      "cts' = [Div a' c', f', Ge (Div a' c') (AsEuint32 100)]"
    using current_ciphertexts_shape by blast
  from eq 1(2) 2(2) have "c = c'" by simp
  with folded_depth [OF 1(1)] folded_depth [OF 2(1)]
  have "unat (dataCount s) = unat (dataCount s')"
    by simp
  with assms(3) show False by (simp add: word_unat_eq_iff)
qed

subsection \<open>What transactions preserve\<close>

lemma transact_stateHash:
  assumes "\<not> reissues requestId ec"
  shows "stateHash (context_at (transact ec s) requestId) = stateHash (context_at s requestId)"
proof (cases ec)
  case (Pair e c)
  with assms show ?thesis
    by (cases c)
      (auto simp: transact_def after_def reissues_def admin_defs guard_defs context_at_def
        emit_def submitEncryptedData_def requestAggregateDecryption_def myCallback_def Let_def
        split: sum.splits option.splits if_splits)
qed

lemma transact_processed:
  assumes "\<not> reissues requestId ec" "processed (context_at s requestId)"
  shows "processed (context_at (transact ec s) requestId)"
proof (cases ec)
  case (Pair e c)
  with assms show ?thesis
    by (cases c)
      (auto simp: transact_def after_def reissues_def admin_defs guard_defs context_at_def
        emit_def submitEncryptedData_def requestAggregateDecryption_def myCallback_def Let_def
        split: sum.splits option.splits if_splits)
qed

lemma transact_dataCount: "unat (dataCount s) \<le> unat (dataCount (transact ec s))"
proof (cases ec)
  case (Pair e c)
  then show ?thesis
    by (cases c)
      (auto simp: transact_def after_def admin_defs guard_defs
        emit_def submitEncryptedData_def requestAggregateDecryption_def myCallback_def Let_def
        split: sum.splits option.splits if_splits dest: checked_add_unat)
qed

lemma run_stateHash:
  "\<forall>ec\<in>set calls. \<not> reissues requestId ec \<Longrightarrow>
   stateHash (context_at (run calls s) requestId) = stateHash (context_at s requestId)"
  by (induction calls arbitrary: s) (simp_all add: transact_stateHash)

lemma run_processed:
  "\<forall>ec\<in>set calls. \<not> reissues requestId ec \<Longrightarrow> processed (context_at s requestId) \<Longrightarrow>
   processed (context_at (run calls s) requestId)"
  by (induction calls arbitrary: s) (simp_all add: transact_processed)

lemma run_dataCount: "unat (dataCount s) \<le> unat (dataCount (run calls s))"
proof (induction calls arbitrary: s)
  case Nil
  show ?case by simp
next
  case (Cons ec calls)
  have "unat (dataCount s) \<le> unat (dataCount (transact ec s))"
    by (rule transact_dataCount)
  also have "\<dots> \<le> unat (dataCount (run calls (transact ec s)))"
    by (rule Cons.IH)
  finally show ?case by simp
qed

subsection \<open>The callback and the submission, case by case\<close>

lemma aggregate_loop_error:
  "aggregate_loop dat flg n i acc = Inl err \<Longrightarrow> err = Panic"
proof (induction dat flg n i acc rule: aggregate_loop.induct)
  case (1 dat flg n i summed count anyFlagTrue)
  then show ?case
    by (auto simp: aggregate_loop.simps [of dat flg n i] split: if_splits)
qed

lemma current_ciphertexts_error:
  assumes "current_ciphertexts s = Inl err"
  shows "err = Panic"
  using assms aggregate_loop_error
  by (auto simp: current_ciphertexts_def folded_def Let_def split: sum.splits)

lemma myCallback_success:
  assumes "myCallback e r ct p s = Inr s'"
  shows "\<not> processed (context_at s r)"
    and "\<exists>cts. current_ciphertexts s = Inr cts
           \<and> hashCiphertexts e cts = stateHash (context_at s r)"
    and "signatures_valid e r ct p"
    and "\<exists>a f h. uint256_at ct 0 = Inr a \<and> bool_at ct 32 = Inr f \<and> uint256_at ct 64 = Inr h
           \<and> s' = s\<lparr>decryptionContexts :=
                        (decryptionContexts s)(r \<mapsto> (context_at s r)\<lparr>processed := True\<rparr>),
                      events := events s @
                        [DecryptionCompleted r (batchId (context_at s r)) [a, h] [f]]\<rparr>"
  using assms
  by (auto simp: myCallback_def Let_def emit_def context_at_def
      split: if_splits sum.splits)

lemma myCallback_valid:
  assumes "\<not> processed (context_at s r)"
    and "current_ciphertexts s = Inr cts"
    and "hashCiphertexts e cts = stateHash (context_at s r)"
    and "signatures_valid e r ct p"
    and "uint256_at ct 0 = Inr a" "bool_at ct 32 = Inr f" "uint256_at ct 64 = Inr h"
  shows "myCallback e r ct p s =
     Inr (s\<lparr>decryptionContexts :=
               (decryptionContexts s)(r \<mapsto> (context_at s r)\<lparr>processed := True\<rparr>),
             events := events s @
               [DecryptionCompleted r (batchId (context_at s r)) [a, h] [f]]\<rparr>)"
  using assms
  by (auto simp: myCallback_def Let_def emit_def context_at_def)

lemma submissionCooldown_eq:
  "submissionCooldown e s a =
     (if unat (lastSubmissionTime s a) + unat (cooldownSeconds s) < 2 ^ 256
      then if unat (block_timestamp e) < unat (lastSubmissionTime s a) + unat (cooldownSeconds s)
           then Some CooldownActive else None
      else Some Panic)"
  using unat_add_lem [of "lastSubmissionTime s a" "cooldownSeconds s"]
  by (auto simp: submissionCooldown_def checked_add_def word_less_nat_alt)

lemma submit_success:
  assumes "submitEncryptedData e d f s = Inr s'"
  shows "isProvider s' (msg_sender e)" "\<not> paused s'" "batchOpen s'"
    "lastSubmissionTime s' (msg_sender e) = block_timestamp e"
    "cooldownSeconds s' = cooldownSeconds s"
  using assms
  by (auto simp: submitEncryptedData_def guard_defs emit_def
      split: if_splits option.splits sum.splits)

lemma submit_runs:
  assumes "isProvider s (msg_sender e)" "\<not> paused s" "batchOpen s"
    and "submissionCooldown e s (msg_sender e) = None"
    and "\<not> isInitialized d" "\<not> isInitialized f" "fhe_initialized e"
    and "dataCount s \<noteq> - 1"
  shows "\<exists>s'. submitEncryptedData e d f s = Inr s'"
proof -
  from assms(8) have "unat (dataCount s + 1) = Suc (unat (dataCount s))"
    by (rule unat_plus_one)
  moreover have "unat (dataCount s + 1) < 2 ^ 256"
    using unsigned_less [of "dataCount s + 1"] by simp
  ultimately have "checked_add (dataCount s) 1 = Inr (dataCount s + 1)"
    by (simp add: checked_add_def)
  with assms show ?thesis
    by (simp add: submitEncryptedData_def guard_defs initIfNeeded_def)
qed

subsection \<open>The sample deployment, evaluated\<close>

lemma sample_cleartexts_decoded:
  "uint256_at sample_cleartexts 0 = Inr 20"
  "bool_at sample_cleartexts 32 = Inr True"
  "uint256_at sample_cleartexts 64 = Inr 0"
  by code_simp+

lemma finalized_facts:
  "myCallback (sample_env 1400) 5 sample_cleartexts [] requested = Inr finalized"
  "processed (context_at finalized 5)"
  "\<not> processed (context_at requested 5)"
  "events finalized = events requested @ [DecryptionCompleted 5 1 [20, 0] [True]]"
  by (simp_all add: finalized_def sample_defs call_defs sample_cleartexts_decoded aggregate_loop.simps
      two_le_one)

subsection \<open>Decoding\<close>

lemma uint256_at_Inr:
  "uint256_at ct k = Inr v \<longleftrightarrow> k + 32 \<le> length ct \<and> v = be_uint256 (take 32 (drop k ct))"
  by (auto simp: uint256_at_def slice_def abi_decode_uint256_def)

lemma bool_at_Inr:
  "bool_at ct k = Inr b \<longleftrightarrow>
     k + 32 \<le> length ct \<and> be_uint256 (take 32 (drop k ct)) = (if b then 1 else 0)"
  by (auto simp: bool_at_def slice_def abi_decode_bool_def abi_decode_uint256_def)

lemma odd_cleartexts_decoded:
  "uint256_at odd_cleartexts 0 = Inr 20"
  "bool_at odd_cleartexts 32 = Inr True"
  "uint256_at odd_cleartexts 64 = Inr 2"
  "bool_at odd_cleartexts 64 = Inl DecodeFailed"
  "be_uint256 (take 32 odd_cleartexts) = 20"
  "be_uint256 (take 32 (drop 32 odd_cleartexts)) = 1"
  "be_uint256 (take 32 (drop 64 odd_cleartexts)) = 2"
  by code_simp+

lemma odd_callback_returns:
  "\<exists>s'. myCallback (sample_env 1400) 5 odd_cleartexts [] requested = Inr s'"
proof -
  have "\<not> processed (context_at requested 5)"
    and "current_ciphertexts requested = Inr sample_cts"
    and "hashCiphertexts (sample_env 1400) sample_cts = stateHash (context_at requested 5)"
    and "signatures_valid (sample_env 1400) 5 odd_cleartexts []"
    by (simp_all add: sample_defs call_defs sample_cts_def aggregate_loop.simps two_le_one)
  from myCallback_valid [OF this odd_cleartexts_decoded(1-3)] show ?thesis
    by blast
qed

subsection \<open>Sequential identifiers\<close>

lemma submitted_ids_append [simp]:
  "submitted_ids (xs @ ys) = submitted_ids xs @ submitted_ids ys"
  by (induction xs rule: submitted_ids.induct) simp_all

lemma submit_result:
  assumes "submitEncryptedData e d f s = Inr s'"
  shows "unat (dataCount s') = Suc (unat (dataCount s))"
    and "encryptedData s' = (encryptedData s)(dataCount s' \<mapsto> d)"
    and "encryptedFlags s' = (encryptedFlags s)(dataCount s' \<mapsto> f)"
    and "events s' = events s @ [DataSubmitted (msg_sender e) (currentBatchId s) (dataCount s')]"
  using assms
  by (auto simp: submitEncryptedData_def guard_defs emit_def
      split: if_splits option.splits sum.splits dest: checked_add_unat)

lemma range_grows:
  fixes n m :: uint256
  assumes "unat m = Suc (unat n)"
  shows "insert m {i. 1 \<le> i \<and> i \<le> n} = {i. 1 \<le> i \<and> i \<le> m}"
  using assms by (auto simp: word_le_nat_alt word_unat_eq_iff)

lemma submit_sequential:
  assumes "submitEncryptedData e d f s = Inr s'" "sequential_ids s"
  shows "sequential_ids s'"
proof -
  note r = submit_result [OF assms(1)]
  from assms(2) r show ?thesis
    by (simp add: sequential_ids_def range_grows [OF r(1)])
qed

lemma sequential_ids_cong:
  assumes "sequential_ids s"
    and "encryptedData s' = encryptedData s" "encryptedFlags s' = encryptedFlags s"
    and "dataCount s' = dataCount s" "submitted_ids (events s') = submitted_ids (events s)"
  shows "sequential_ids s'"
  using assms by (simp add: sequential_ids_def)

lemma other_calls_keep:
  assumes "dispatch e c s = Inr s'" "\<forall>d f. c \<noteq> SubmitEncryptedData d f"
  shows "encryptedData s' = encryptedData s \<and> encryptedFlags s' = encryptedFlags s
     \<and> dataCount s' = dataCount s \<and> submitted_ids (events s') = submitted_ids (events s)"
proof (cases c)
  case RequestAggregateDecryption
  with assms(1) show ?thesis
    by (auto simp: requestAggregateDecryption_def guard_defs emit_def Let_def
        split: sum.splits option.splits if_splits)
next
  case (MyCallback r ct p)
  with assms(1) have "myCallback e r ct p s = Inr s'"
    by simp
  from myCallback_success(4) [OF this] show ?thesis
    by auto
next
  case (SubmitEncryptedData d f)
  with assms(2) show ?thesis
    by simp
qed (use assms(1) in \<open>auto simp: admin_defs guard_defs emit_def
       split: sum.splits option.splits if_splits\<close>)

lemma transact_sequential:
  assumes "sequential_ids s"
  shows "sequential_ids (transact ec s)"
proof (cases "dispatch (fst ec) (snd ec) s")
  case (Inl err)
  with assms show ?thesis
    by (simp add: transact_def after_def)
next
  case (Inr s')
  then have s': "transact ec s = s'"
    by (simp add: transact_def after_def)
  show ?thesis
  proof (cases "\<exists>d f. snd ec = SubmitEncryptedData d f")
    case True
    then obtain d f where "snd ec = SubmitEncryptedData d f"
      by blast
    with Inr have "submitEncryptedData (fst ec) d f s = Inr s'"
      by simp
    from submit_sequential [OF this assms] show ?thesis
      by (simp only: s')
  next
    case False
    then have "\<forall>d f. snd ec \<noteq> SubmitEncryptedData d f"
      by simp
    from other_calls_keep [OF Inr this]
    have "encryptedData s' = encryptedData s" "encryptedFlags s' = encryptedFlags s"
      "dataCount s' = dataCount s" "submitted_ids (events s') = submitted_ids (events s)"
      by simp_all
    from sequential_ids_cong [OF assms this] show ?thesis
      by (simp only: s')
  qed
qed

lemma run_sequential:
  "sequential_ids s \<Longrightarrow> sequential_ids (run calls s)"
  by (induction calls arbitrary: s) (simp_all add: transact_sequential)

lemma constructor_sequential: "sequential_ids (constructor e)"
  by (auto simp: sequential_ids_def constructor_def word_le_nat_alt)

subsection \<open>Initialised handles are never admitted\<close>











subsection \<open>The fold of a request over three given contributions\<close>

text \<open>
  Were the storage to hold three contributions that decrypt to 10, 20, 30 with flags
  false, false, true, the loop would return a sum that decrypts to 60 and a count that
  decrypts to 3, and a request that passes its guards would commit to three handles
  that decrypt to 20, true, false: the loop and the packing of
  \<^verbatim>\<open>requestAggregateDecryption\<close> compute what they are meant to.
\<close>

lemma loop_folds_10_20_30:
  assumes n: "dataCount s = 3"
    and vals: "decrypt key (handle_at (encryptedData s) 1) = Some (U32 10)"
      "decrypt key (handle_at (encryptedData s) 2) = Some (U32 20)"
      "decrypt key (handle_at (encryptedData s) 3) = Some (U32 30)"
    and flags: "decrypt key (handle_at (encryptedFlags s) 1) = Some (B False)"
      "decrypt key (handle_at (encryptedFlags s) 2) = Some (B False)"
      "decrypt key (handle_at (encryptedFlags s) 3) = Some (B True)"
  shows "\<exists>summed count anyFlagTrue.
       folded s = Inr (summed, count, anyFlagTrue)
     \<and> decrypt key summed = Some (U32 60)
     \<and> decrypt key count = Some (U32 3)
     \<and> current_ciphertexts s =
         Inr [Div summed count, anyFlagTrue, Ge (Div summed count) (AsEuint32 100)]
     \<and> map (decrypt key)
           [Div summed count, anyFlagTrue, Ge (Div summed count) (AsEuint32 100)] =
         [Some (U32 20), Some (B True), Some (B False)]"
proof -
  let ?d = "handle_at (encryptedData s)" and ?f = "handle_at (encryptedFlags s)"
  let ?summed = "Add (Add (Add (AsEuint32 0) (?d 1)) (?d 2)) (?d 3)"
  let ?count = "Add (Add (Add (AsEuint32 0) (AsEuint32 1)) (AsEuint32 1)) (AsEuint32 1)"
  let ?any = "Or (Or (Or (AsEbool False) (?f 1)) (?f 2)) (?f 3)"
  have fold: "folded s = Inr (?summed, ?count, ?any)"
    by (simp add: folded_def n aggregate_loop.simps)
  have summed: "decrypt key ?summed = Some (U32 60)"
    by (simp add: vals)
  have count: "decrypt key ?count = Some (U32 3)"
    by simp
  have any: "decrypt key ?any = Some (B True)"
    by (simp add: flags)
  have average: "decrypt key (Div ?summed ?count) = Some (U32 20)"
    by (simp add: vals)
  have high: "decrypt key (Ge (Div ?summed ?count) (AsEuint32 100)) = Some (B False)"
    by (simp add: vals)
  have cts: "current_ciphertexts s =
      Inr [Div ?summed ?count, ?any, Ge (Div ?summed ?count) (AsEuint32 100)]"
    by (simp add: current_ciphertexts_def fold Let_def)
  from fold summed count any average high cts show ?thesis
    by (intro exI [of _ ?summed] exI [of _ ?count] exI [of _ ?any]) simp
qed

lemma request_folds_10_20_30:
  assumes guards: "\<not> paused s" "decryptionRequestCooldown e s (msg_sender e) = None"
      "\<not> batchOpen s"
    and n: "dataCount s = 3"
    and vals: "decrypt key (handle_at (encryptedData s) 1) = Some (U32 10)"
      "decrypt key (handle_at (encryptedData s) 2) = Some (U32 20)"
      "decrypt key (handle_at (encryptedData s) 3) = Some (U32 30)"
    and flags: "decrypt key (handle_at (encryptedFlags s) 1) = Some (B False)"
      "decrypt key (handle_at (encryptedFlags s) 2) = Some (B False)"
      "decrypt key (handle_at (encryptedFlags s) 3) = Some (B True)"
  shows "\<exists>summed count anyFlagTrue s'.
       requestAggregateDecryption e s = Inr s'
     \<and> decryptionContexts s' (oracle_request_id e) =
         Some \<lparr>batchId = currentBatchId s,
               stateHash = hashCiphertexts e
                 [Div summed count, anyFlagTrue, Ge (Div summed count) (AsEuint32 100)],
               processed = False\<rparr>
     \<and> decrypt key summed = Some (U32 60)
     \<and> decrypt key count = Some (U32 3)
     \<and> map (decrypt key)
           [Div summed count, anyFlagTrue, Ge (Div summed count) (AsEuint32 100)] =
         [Some (U32 20), Some (B True), Some (B False)]"
proof -
  from loop_folds_10_20_30 [OF n vals flags] obtain summed count anyFlagTrue where
    sums: "decrypt key summed = Some (U32 60)" "decrypt key count = Some (U32 3)"
    and cts: "current_ciphertexts s =
      Inr [Div summed count, anyFlagTrue, Ge (Div summed count) (AsEuint32 100)]"
    and plain: "map (decrypt key)
        [Div summed count, anyFlagTrue, Ge (Div summed count) (AsEuint32 100)] =
      [Some (U32 20), Some (B True), Some (B False)]"
    by (elim exE conjE)
  from guards n have "\<exists>s'. requestAggregateDecryption e s = Inr s'"
    by (simp add: requestAggregateDecryption_def guard_defs cts Let_def)
  then obtain s' where ok: "requestAggregateDecryption e s = Inr s'" ..
  from request_effect [OF ok] cts
  have "decryptionContexts s' (oracle_request_id e) =
      Some \<lparr>batchId = currentBatchId s,
            stateHash = hashCiphertexts e
              [Div summed count, anyFlagTrue, Ge (Div summed count) (AsEuint32 100)],
            processed = False\<rparr>"
    by simp
  with ok sums plain show ?thesis
    by (intro exI conjI)
qed

section \<open>The claims\<close>

text \<open>
  Claim C2. A reveal was requested and the oracle answered with an identifier. Then
  any transactions ran, among them a submission that was admitted, and none of them a
  reveal request answered with the same identifier again. When the request is still
  pending (its context is not processed) and the contribution counter is below the
  largest \<^verbatim>\<open>uint256\<close>, the callback for that identifier reverts with
  \<^verbatim>\<open>StateMismatch\<close>, whatever the cleartexts, the proof, the caller and the verdict
  of the signature check: the commitment recomputed from the storage is no longer the
  one stored with the request.
\<close>

theorem stale_callback_mismatch:
  assumes req: "requestAggregateDecryption e0 s0 = Inr s1"
    and pre: "\<forall>ec\<in>set pre. \<not> reissues (oracle_request_id e0) ec"
    and sub: "submitEncryptedData e1 data flag (run pre s1) = Inr s2"
    and post: "\<forall>ec\<in>set post. \<not> reissues (oracle_request_id e0) ec"
    and pending: "\<not> processed (context_at (run post s2) (oracle_request_id e0))"
    and range: "dataCount (run post s2) \<noteq> - 1"
  shows "myCallback e (oracle_request_id e0) cleartexts prf (run post s2) = Inl StateMismatch"
proof -
  let ?r = "oracle_request_id e0"
  let ?s = "run post s2"
  from request_effect [OF req] obtain cts0 where
    cts0: "current_ciphertexts s0 = Inr cts0"
    and ctx1: "stateHash (context_at s1 ?r) = hashCiphertexts e0 cts0"
    and dc1: "dataCount s1 = dataCount s0"
    by (auto simp: context_at_def)
  have "stateHash (context_at s2 ?r) = stateHash (context_at (run pre s1) ?r)"
    using submit_effect(1) [OF sub] by (simp add: context_at_def)
  with pre post ctx1 have stored: "stateHash (context_at ?s ?r) = hashCiphertexts e0 cts0"
    by (simp add: run_stateHash)
  have "unat (dataCount s0) \<le> unat (dataCount (run pre s1))"
    using run_dataCount [of s1 pre] dc1 by simp
  also have "\<dots> < unat (dataCount s2)"
    using submit_effect(2) [OF sub] by simp
  also have "\<dots> \<le> unat (dataCount ?s)"
    by (rule run_dataCount)
  finally have grown: "dataCount s0 \<noteq> dataCount ?s"
    by auto
  from current_ciphertexts_returns [OF range] obtain cts
    where cts: "current_ciphertexts ?s = Inr cts" ..
  from cts0 cts grown have "cts0 \<noteq> cts"
    by (rule current_ciphertexts_differ)
  with stored have "hashCiphertexts e cts \<noteq> stateHash (context_at ?s ?r)"
    by (simp add: hashCiphertexts_def)
  with pending cts show ?thesis
    by (simp add: myCallback_def)
qed

theorem stale_callback_mismatch_witness:
  "requestAggregateDecryption (sample_env 1200) closed = Inr requested
   \<and> submitEncryptedData (sample_env 1300) Uninit Uninit
        (run [(sample_env 1300, OpenBatch)] requested) = Inr resubmitted
   \<and> \<not> processed (context_at resubmitted 5)
   \<and> dataCount resubmitted \<noteq> - 1
   \<and> myCallback (sample_env 1400) 5 [] [] resubmitted = Inl StateMismatch"
proof -
  have req: "requestAggregateDecryption (sample_env 1200) closed = Inr requested"
    by (simp add: sample_defs call_defs aggregate_loop.simps two_le_one)
  have id: "oracle_request_id (sample_env 1200) = 5"
    by (simp add: sample_env_def)
  have pre: "\<forall>ec\<in>set [(sample_env 1300, OpenBatch)].
      \<not> reissues (oracle_request_id (sample_env 1200)) ec"
    by (simp add: reissues_def)
  have sub: "submitEncryptedData (sample_env 1300) Uninit Uninit
      (run [(sample_env 1300, OpenBatch)] requested) = Inr resubmitted"
    by (simp add: sample_defs call_defs aggregate_loop.simps two_le_one)
  have post: "\<forall>ec\<in>set []. \<not> reissues (oracle_request_id (sample_env 1200)) ec"
    by simp
  have pending: "\<not> processed (context_at (run [] resubmitted)
      (oracle_request_id (sample_env 1200)))"
    by (simp add: sample_defs call_defs aggregate_loop.simps two_le_one)
  have range: "dataCount (run [] resubmitted) \<noteq> - 1"
    by (simp add: sample_defs call_defs aggregate_loop.simps two_le_one)
  from stale_callback_mismatch [OF req pre sub post pending range,
      of "sample_env 1400" "[]" "[]"]
  have "myCallback (sample_env 1400) 5 [] [] resubmitted = Inl StateMismatch"
    by (simp add: id)
  with req sub pending range show ?thesis
    by (simp add: id)
qed

text \<open>
  Claim C5, as amended. \<^verbatim>\<open>requestAggregateDecryption\<close> always reverts when the
  batch is open or \<^verbatim>\<open>dataCount\<close> is 0, and the error is that of the first guard that
  fails, in the order of the source: \<^verbatim>\<open>Paused\<close> when the contract is paused; else
  the error of the caller's decryption-request cooldown (\<^verbatim>\<open>CooldownActive\<close>, or a
  panic when the sum of the two \<^verbatim>\<open>uint256\<close> overflows); else \<^verbatim>\<open>InvalidBatch\<close>
  (the specification's EmptyBatch) when \<^verbatim>\<open>dataCount\<close> is 0; else \<^verbatim>\<open>BatchClosed\<close>
  (the specification's BatchStillOpen), the batch being open.
\<close>

theorem requestAggregateDecryption_guards:
  assumes "batchOpen s \<or> dataCount s = 0"
  shows "requestAggregateDecryption e s =
     Inl (if paused s then Paused
          else case decryptionRequestCooldown e s (msg_sender e) of
                 Some err \<Rightarrow> err
               | None \<Rightarrow> if dataCount s = 0 then InvalidBatch else BatchClosed)"
  using assms
  by (auto simp: requestAggregateDecryption_def require_ok_def whenNotPaused_def
      split: option.splits)

theorem requestAggregateDecryption_guards_witness:
  "batchOpen collecting \<and> dataCount collecting = 1
   \<and> requestAggregateDecryption (sample_env 1200) collecting = Inl BatchClosed"
proof -
  have facts: "batchOpen collecting" "dataCount collecting = 1" "\<not> paused collecting"
    "decryptionRequestCooldown (sample_env 1200) collecting (msg_sender (sample_env 1200))
       = None"
    by (simp_all add: sample_defs call_defs)
  from facts(1) have "batchOpen collecting \<or> dataCount collecting = 0" ..
  from requestAggregateDecryption_guards [OF this, of "sample_env 1200"] facts
  show ?thesis by simp
qed

text \<open>
  Claim C5 as the specification words it fails in both halves. With the batch open and
  no contribution stored, the call reverts with \<^verbatim>\<open>InvalidBatch\<close>, not with the
  error for an open batch; and with no contribution stored and the contract paused, it
  reverts with \<^verbatim>\<open>Paused\<close>, not with \<^verbatim>\<open>InvalidBatch\<close>.
\<close>

theorem requestAggregateDecryption_open_counterexample:
  "\<not> (\<forall>e s. batchOpen s \<longrightarrow> requestAggregateDecryption e s = Inl BatchClosed)
   \<and> \<not> (\<forall>e s. dataCount s = 0 \<longrightarrow> requestAggregateDecryption e s = Inl InvalidBatch)"
proof
  show "\<not> (\<forall>e s. batchOpen s \<longrightarrow> requestAggregateDecryption e s = Inl BatchClosed)"
  proof
    assume "\<forall>e s. batchOpen s \<longrightarrow> requestAggregateDecryption e s = Inl BatchClosed"
    moreover have "batchOpen opened"
      by (simp add: sample_defs call_defs)
    ultimately have "requestAggregateDecryption (sample_env 1200) opened = Inl BatchClosed"
      by blast
    moreover have "requestAggregateDecryption (sample_env 1200) opened = Inl InvalidBatch"
      by (simp add: sample_defs call_defs)
    ultimately show False by simp
  qed
  show "\<not> (\<forall>e s. dataCount s = 0 \<longrightarrow> requestAggregateDecryption e s = Inl InvalidBatch)"
  proof
    assume "\<forall>e s. dataCount s = 0 \<longrightarrow> requestAggregateDecryption e s = Inl InvalidBatch"
    moreover have "dataCount halted = 0"
      by (simp add: sample_defs call_defs)
    ultimately have "requestAggregateDecryption (sample_env 1200) halted = Inl InvalidBatch"
      by blast
    moreover have "requestAggregateDecryption (sample_env 1200) halted = Inl Paused"
      by (simp add: sample_defs call_defs)
    ultimately show False by simp
  qed
qed

text \<open>
  Claim C1. A context is stored under the request identifier and is not processed, the
  commitment recomputed from the storage is the stored one, the signature check accepts
  the payload and the three words decode. Then the callback returns: the context is
  stored with \<open>processed\<close> set and nothing else changed, and one
  \<^verbatim>\<open>DecryptionCompleted\<close> event is appended. Every later callback for the same
  identifier, from any caller and with any payload, reverts with \<^verbatim>\<open>ReplayAttempt\<close>
  and leaves the storage and the event log as they are. \<open>processed\<close> stays set
  through every sequence of transactions in which the oracle does not hand out the
  identifier again, and the callback keeps reverting with \<^verbatim>\<open>ReplayAttempt\<close>.
\<close>

theorem myCallback_finalizes_once:
  assumes ctx: "decryptionContexts s r = Some c" and fresh: "\<not> processed c"
    and cts: "current_ciphertexts s = Inr cts"
    and commit: "stateHash c = hashCiphertexts e cts"
    and sig: "signatures_valid e r ct p"
    and dec: "uint256_at ct 0 = Inr a" "bool_at ct 32 = Inr f" "uint256_at ct 64 = Inr h"
  shows "\<exists>s'. myCallback e r ct p s = Inr s'
     \<and> decryptionContexts s' r = Some (c\<lparr>processed := True\<rparr>)
     \<and> events s' = events s @ [DecryptionCompleted r (batchId c) [a, h] [f]]
     \<and> (\<forall>e' ct' p'. myCallback e' r ct' p' s' = Inl ReplayAttempt
           \<and> transact (e', MyCallback r ct' p') s' = s')
     \<and> (\<forall>calls. (\<forall>ec\<in>set calls. \<not> reissues r ec) \<longrightarrow>
           processed (context_at (run calls s') r)
           \<and> (\<forall>e' ct' p'. myCallback e' r ct' p' (run calls s') = Inl ReplayAttempt))"
proof -
  let ?s' = "s\<lparr>decryptionContexts :=
                 (decryptionContexts s)(r \<mapsto> (context_at s r)\<lparr>processed := True\<rparr>),
               events := events s @
                 [DecryptionCompleted r (batchId (context_at s r)) [a, h] [f]]\<rparr>"
  from ctx have c: "context_at s r = c"
    by (simp add: context_at_def)
  with fresh cts commit sig dec have ok: "myCallback e r ct p s = Inr ?s'"
    by (intro myCallback_valid) simp_all
  have latched: "processed (context_at ?s' r)"
    by (simp add: context_at_def)
  have replay: "myCallback e' r ct' p' s'' = Inl ReplayAttempt"
    if "processed (context_at s'' r)" for e' ct' p' s''
    using that by (simp add: myCallback_def)
  have "decryptionContexts ?s' r = Some (c\<lparr>processed := True\<rparr>)"
    by (simp add: c)
  moreover have "events ?s' = events s @ [DecryptionCompleted r (batchId c) [a, h] [f]]"
    by (simp add: c)
  moreover have "myCallback e' r ct' p' ?s' = Inl ReplayAttempt
      \<and> transact (e', MyCallback r ct' p') ?s' = ?s'" for e' ct' p'
    using replay [OF latched] by (simp add: transact_def after_def)
  moreover have "processed (context_at (run calls ?s') r)
      \<and> (\<forall>e' ct' p'. myCallback e' r ct' p' (run calls ?s') = Inl ReplayAttempt)"
    if "\<forall>ec\<in>set calls. \<not> reissues r ec" for calls
    using run_processed [OF that latched] replay by blast
  ultimately show ?thesis
    using ok by blast
qed

theorem myCallback_finalizes_once_witness:
  "decryptionContexts requested 5 = Some (context_at requested 5)
   \<and> \<not> processed (context_at requested 5)
   \<and> myCallback (sample_env 1400) 5 sample_cleartexts [] requested = Inr finalized
   \<and> decryptionContexts finalized 5 = Some ((context_at requested 5)\<lparr>processed := True\<rparr>)
   \<and> events finalized = events requested @ [DecryptionCompleted 5 1 [20, 0] [True]]
   \<and> myCallback (sample_env 1500) 5 [] [] finalized = Inl ReplayAttempt
   \<and> transact (sample_env 1500, MyCallback 5 [] []) finalized = finalized
   \<and> processed (context_at (run [(sample_env 1600, OpenBatch)] finalized) 5)"
proof -
  have ctx: "decryptionContexts requested 5 = Some (context_at requested 5)"
    and fresh: "\<not> processed (context_at requested 5)"
    and cts: "current_ciphertexts requested = Inr sample_cts"
    and commit: "stateHash (context_at requested 5) = hashCiphertexts (sample_env 1400) sample_cts"
    and sig: "signatures_valid (sample_env 1400) 5 sample_cleartexts []"
    and bid: "batchId (context_at requested 5) = 1"
    by (simp_all add: sample_defs call_defs sample_cts_def aggregate_loop.simps two_le_one)
  have quiet: "\<forall>ec\<in>set [(sample_env 1600, OpenBatch)]. \<not> reissues 5 ec"
    by (simp add: reissues_def)
  from myCallback_finalizes_once [OF ctx fresh cts commit sig sample_cleartexts_decoded]
  obtain s' where ok: "myCallback (sample_env 1400) 5 sample_cleartexts [] requested = Inr s'"
    and stored: "decryptionContexts s' 5 = Some ((context_at requested 5)\<lparr>processed := True\<rparr>)"
    and log: "events s' = events requested @
        [DecryptionCompleted 5 (batchId (context_at requested 5)) [20, 0] [True]]"
    and replay: "\<And>e' ct' p'. myCallback e' 5 ct' p' s' = Inl ReplayAttempt
        \<and> transact (e', MyCallback 5 ct' p') s' = s'"
    and latch: "\<And>calls. \<forall>ec\<in>set calls. \<not> reissues 5 ec \<Longrightarrow>
        processed (context_at (run calls s') 5)"
    by blast
  from ok finalized_facts(1) have s': "s' = finalized"
    by simp
  from ctx fresh ok stored log replay [of "sample_env 1500" "[]" "[]"] latch [OF quiet]
  show ?thesis
    by (simp add: s' bid)
qed

text \<open>
  Claim C3. A callback that finds the context processed reverts with
  \<^verbatim>\<open>ReplayAttempt\<close>, one whose recomputed commitment differs from the stored one
  with \<^verbatim>\<open>StateMismatch\<close>, one whose signatures are rejected with the revert of
  \<^verbatim>\<open>FHE.checkSignatures\<close>. After any callback that reverts, the storage and the
  event log are what they were. A callback that returns found the context not
  processed, sets \<open>processed\<close> of that one context, appends exactly one
  \<^verbatim>\<open>DecryptionCompleted\<close> event and changes nothing else.
\<close>

theorem myCallback_all_or_nothing:
  "(processed (context_at s r) \<longrightarrow> myCallback e r ct p s = Inl ReplayAttempt)
   \<and> (\<forall>cts. \<not> processed (context_at s r) \<and> current_ciphertexts s = Inr cts
          \<and> hashCiphertexts e cts \<noteq> stateHash (context_at s r)
        \<longrightarrow> myCallback e r ct p s = Inl StateMismatch)
   \<and> (\<forall>cts. \<not> processed (context_at s r) \<and> current_ciphertexts s = Inr cts
          \<and> hashCiphertexts e cts = stateHash (context_at s r)
          \<and> \<not> signatures_valid e r ct p
        \<longrightarrow> myCallback e r ct p s = Inl SignaturesRejected)
   \<and> (\<forall>err. myCallback e r ct p s = Inl err \<longrightarrow> transact (e, MyCallback r ct p) s = s)
   \<and> (\<forall>s'. myCallback e r ct p s = Inr s' \<longrightarrow>
          transact (e, MyCallback r ct p) s = s'
          \<and> \<not> processed (context_at s r) \<and> processed (context_at s' r)
          \<and> (\<exists>results flags. events s' =
                events s @ [DecryptionCompleted r (batchId (context_at s r)) results flags])
          \<and> s'\<lparr>decryptionContexts := decryptionContexts s, events := events s\<rparr> = s
          \<and> (\<forall>r'. r' \<noteq> r \<longrightarrow> decryptionContexts s' r' = decryptionContexts s r')
          \<and> batchId (context_at s' r) = batchId (context_at s r)
          \<and> stateHash (context_at s' r) = stateHash (context_at s r))"
proof (intro conjI allI impI)
  fix s'
  assume ok: "myCallback e r ct p s = Inr s'"
  from myCallback_success(4) [OF ok] obtain a f h where
    s': "s' = s\<lparr>decryptionContexts :=
                   (decryptionContexts s)(r \<mapsto> (context_at s r)\<lparr>processed := True\<rparr>),
                 events := events s @
                   [DecryptionCompleted r (batchId (context_at s r)) [a, h] [f]]\<rparr>"
    by blast
  show "transact (e, MyCallback r ct p) s = s'"
    using ok by (simp add: transact_def after_def)
  show "\<not> processed (context_at s r)"
    by (rule myCallback_success(1) [OF ok])
  show "processed (context_at s' r)"
    by (simp add: s' context_at_def)
  show "\<exists>results flags. events s' =
      events s @ [DecryptionCompleted r (batchId (context_at s r)) results flags]"
    by (simp add: s')
  show "s'\<lparr>decryptionContexts := decryptionContexts s, events := events s\<rparr> = s"
    by (simp add: s')
  show "batchId (context_at s' r) = batchId (context_at s r)"
    by (simp add: s' context_at_def)
  show "stateHash (context_at s' r) = stateHash (context_at s r)"
    by (simp add: s' context_at_def)
  fix r' assume "r' \<noteq> r"
  then show "decryptionContexts s' r' = decryptionContexts s r'"
    by (simp add: s')
qed (auto simp: myCallback_def transact_def after_def)

theorem myCallback_all_or_nothing_witness:
  "processed (context_at finalized 5)
   \<and> myCallback (sample_env 1500) 5 sample_cleartexts [] finalized = Inl ReplayAttempt
   \<and> transact (sample_env 1500, MyCallback 5 sample_cleartexts []) finalized = finalized
   \<and> myCallback (sample_env 1400) 5 sample_cleartexts [] requested = Inr finalized
   \<and> transact (sample_env 1400, MyCallback 5 sample_cleartexts []) requested = finalized
   \<and> finalized\<lparr>decryptionContexts := decryptionContexts requested,
                events := events requested\<rparr> = requested"
proof -
  note fails = myCallback_all_or_nothing
    [of finalized 5 "sample_env 1500" sample_cleartexts "[]"]
  note succeeds = myCallback_all_or_nothing
    [of requested 5 "sample_env 1400" sample_cleartexts "[]"]
  from fails finalized_facts(2)
  have replay: "myCallback (sample_env 1500) 5 sample_cleartexts [] finalized
      = Inl ReplayAttempt"
    by blast
  with fails
  have same: "transact (sample_env 1500, MyCallback 5 sample_cleartexts []) finalized
      = finalized"
    by blast
  from succeeds finalized_facts(1)
  have "transact (sample_env 1400, MyCallback 5 sample_cleartexts []) requested = finalized"
    and "finalized\<lparr>decryptionContexts := decryptionContexts requested,
                   events := events requested\<rparr> = requested"
    by blast+
  with replay same finalized_facts show ?thesis
    by simp
qed

text \<open>
  Claim C8. The cooldown is 60 seconds and a provider's submission at time \<open>t\<close> was
  admitted. Then \<^verbatim>\<open>lastSubmissionTime\<close> of the provider is \<open>t\<close>. A second
  submission by the same provider at a time before \<open>t + 60\<close> reverts with
  \<^verbatim>\<open>CooldownActive\<close> (as long as \<open>t + 60\<close> is a \<^verbatim>\<open>uint256\<close>, so that the
  checked sum does not panic). At or after \<open>t + 60\<close> the cooldown check passes, and
  the submission is admitted when its two handles are fresh, the library is
  initialised and the contribution counter can still grow; it stamps the new time.
\<close>

theorem submission_cooldown_60:
  assumes cd: "cooldownSeconds s = 60"
    and first: "submitEncryptedData e data flag s = Inr s1"
    and same: "msg_sender e' = msg_sender e"
  shows "lastSubmissionTime s1 (msg_sender e) = block_timestamp e
     \<and> (unat (block_timestamp e') < unat (block_timestamp e) + 60
          \<and> unat (block_timestamp e) + 60 < 2 ^ 256
        \<longrightarrow> submitEncryptedData e' data' flag' s1 = Inl CooldownActive)
     \<and> (unat (block_timestamp e) + 60 \<le> unat (block_timestamp e')
        \<longrightarrow> submissionCooldown e' s1 (msg_sender e') = None
            \<and> (\<not> isInitialized data' \<and> \<not> isInitialized flag' \<and> fhe_initialized e'
                 \<and> dataCount s1 \<noteq> - 1
               \<longrightarrow> (\<exists>s2. submitEncryptedData e' data' flag' s1 = Inr s2
                      \<and> lastSubmissionTime s2 (msg_sender e') = block_timestamp e')))"
proof (intro conjI impI)
  note s1 = submit_success [OF first]
  have cd1: "unat (cooldownSeconds s1) = 60"
    by (simp add: s1(5) cd)
  show stamp: "lastSubmissionTime s1 (msg_sender e) = block_timestamp e"
    by (rule s1(4))
  {
    assume "unat (block_timestamp e') < unat (block_timestamp e) + 60
      \<and> unat (block_timestamp e) + 60 < 2 ^ 256"
    then have "submissionCooldown e' s1 (msg_sender e') = Some CooldownActive"
      by (simp add: submissionCooldown_eq same stamp cd1)
    with s1(1,2) show "submitEncryptedData e' data' flag' s1 = Inl CooldownActive"
      by (simp add: submitEncryptedData_def guard_defs same)
  }
  assume late: "unat (block_timestamp e) + 60 \<le> unat (block_timestamp e')"
  have "unat (block_timestamp e') < 2 ^ 256"
    using unsigned_less [of "block_timestamp e'"] by simp
  with late show cool: "submissionCooldown e' s1 (msg_sender e') = None"
    by (simp add: submissionCooldown_eq same stamp cd1)
  assume "\<not> isInitialized data' \<and> \<not> isInitialized flag' \<and> fhe_initialized e'
    \<and> dataCount s1 \<noteq> - 1"
  with s1(1,2,3) cool obtain s2 where s2: "submitEncryptedData e' data' flag' s1 = Inr s2"
    using submit_runs [of s1 e' data' flag'] by (auto simp: same)
  from submit_success(4) [OF s2] s2
  show "\<exists>s2. submitEncryptedData e' data' flag' s1 = Inr s2
      \<and> lastSubmissionTime s2 (msg_sender e') = block_timestamp e'"
    by blast
qed

theorem submission_cooldown_60_witness:
  "cooldownSeconds opened = 60
   \<and> submitEncryptedData (sample_env 1000) Uninit Uninit opened = Inr collecting
   \<and> lastSubmissionTime collecting 1 = 1000
   \<and> submitEncryptedData (sample_env 1059) Uninit Uninit collecting = Inl CooldownActive
   \<and> (\<exists>s2. submitEncryptedData (sample_env 1060) Uninit Uninit collecting = Inr s2
         \<and> lastSubmissionTime s2 1 = 1060)"
proof -
  have cd: "cooldownSeconds opened = 60"
    and first: "submitEncryptedData (sample_env 1000) Uninit Uninit opened = Inr collecting"
    by (simp_all add: sample_defs call_defs)
  have misc: "msg_sender (sample_env t) = 1" "block_timestamp (sample_env t) = t"
    "fhe_initialized (sample_env t)" "\<not> isInitialized Uninit" "dataCount collecting \<noteq> - 1"
    for t
    by (simp_all add: sample_defs call_defs)
  have same: "msg_sender (sample_env t) = msg_sender (sample_env 1000)" for t
    by (simp add: sample_env_def)
  from submission_cooldown_60 [OF cd first same, of 1059 Uninit Uninit]
  have early: "lastSubmissionTime collecting 1 = 1000"
    "submitEncryptedData (sample_env 1059) Uninit Uninit collecting = Inl CooldownActive"
    by (simp_all add: misc)
  from submission_cooldown_60 [OF cd first same, of 1060 Uninit Uninit]
  have "\<exists>s2. submitEncryptedData (sample_env 1060) Uninit Uninit collecting = Inr s2
         \<and> lastSubmissionTime s2 1 = 1060"
    by (simp add: misc)
  with cd first early show ?thesis
    by simp
qed


text \<open>
  Claim C9. No context is stored under the request identifier, at least one
  contribution is stored and the contribution counter is below the largest
  \<^verbatim>\<open>uint256\<close>. Then the callback reverts with \<^verbatim>\<open>StateMismatch\<close>, whatever the
  caller, the cleartexts, the proof and the verdict of the signature check, and the
  storage and the event log stay as they are: the state hash of a context never
  written is \<^verbatim>\<open>bytes32(0)\<close>, which is not a keccak256 output.
\<close>

theorem forged_callback_rejected:
  assumes "decryptionContexts s requestId = None" "dataCount s \<noteq> 0" "dataCount s \<noteq> - 1"
  shows "myCallback e requestId cleartexts prf s = Inl StateMismatch
     \<and> transact (e, MyCallback requestId cleartexts prf) s = s"
proof -
  from current_ciphertexts_returns [OF assms(3)] obtain cts
    where "current_ciphertexts s = Inr cts" ..
  with assms(1) have "myCallback e requestId cleartexts prf s = Inl StateMismatch"
    by (simp add: myCallback_def context_at_def zero_context_def hashCiphertexts_def)
  then show ?thesis
    by (simp add: transact_def after_def)
qed

theorem forged_callback_rejected_witness:
  "decryptionContexts requested 6 = None \<and> dataCount requested \<noteq> 0
   \<and> dataCount requested \<noteq> - 1
   \<and> myCallback (sample_env 1400) 6 sample_cleartexts [] requested = Inl StateMismatch
   \<and> transact (sample_env 1400, MyCallback 6 sample_cleartexts []) requested = requested"
proof -
  have facts: "decryptionContexts requested 6 = None" "dataCount requested \<noteq> 0"
    "dataCount requested \<noteq> - 1"
    by (simp_all add: sample_defs call_defs aggregate_loop.simps two_le_one)
  from forged_callback_rejected [OF facts, of "sample_env 1400" sample_cleartexts "[]"] facts
  show ?thesis by simp
qed

text \<open>
  Claim C10. \<^verbatim>\<open>requestAggregateDecryption\<close> never reverts with \<^verbatim>\<open>NotOwner\<close>
  or \<^verbatim>\<open>NotProvider\<close>, and its outcome does not depend on who the owner is or who
  the providers are. When the contribution counter is below the largest
  \<^verbatim>\<open>uint256\<close>, the call returns exactly when the contract is not paused, the
  caller's last request lies at least \<^verbatim>\<open>cooldownSeconds\<close> back, \<^verbatim>\<open>dataCount\<close>
  is not 0 and the batch is closed.
\<close>

theorem request_needs_no_role:
  "requestAggregateDecryption e s \<noteq> Inl NotOwner
   \<and> requestAggregateDecryption e s \<noteq> Inl NotProvider
   \<and> (\<forall>ow pr. requestAggregateDecryption e (s\<lparr>owner := ow, isProvider := pr\<rparr>) =
          map_sum id (\<lambda>s'. s'\<lparr>owner := ow, isProvider := pr\<rparr>)
            (requestAggregateDecryption e s))
   \<and> (dataCount s \<noteq> - 1 \<longrightarrow>
        ((\<exists>s'. requestAggregateDecryption e s = Inr s') \<longleftrightarrow>
           \<not> paused s
           \<and> unat (lastDecryptionRequestTime s (msg_sender e)) + unat (cooldownSeconds s)
               \<le> unat (block_timestamp e)
           \<and> dataCount s \<noteq> 0
           \<and> \<not> batchOpen s))"
proof (intro conjI allI impI)
  show "requestAggregateDecryption e s \<noteq> Inl NotOwner"
    by (auto simp: requestAggregateDecryption_def guard_defs decryptionRequestCooldown_def
        checked_add_def Let_def split: sum.splits if_splits option.splits
        dest: current_ciphertexts_error)
  show "requestAggregateDecryption e s \<noteq> Inl NotProvider"
    by (auto simp: requestAggregateDecryption_def guard_defs decryptionRequestCooldown_def
        checked_add_def Let_def split: sum.splits if_splits option.splits
        dest: current_ciphertexts_error)
next
  fix ow pr
  have "current_ciphertexts (s\<lparr>owner := ow, isProvider := pr\<rparr>) = current_ciphertexts s"
    by (simp add: current_ciphertexts_def folded_def)
  then show "requestAggregateDecryption e (s\<lparr>owner := ow, isProvider := pr\<rparr>) =
      map_sum id (\<lambda>s'. s'\<lparr>owner := ow, isProvider := pr\<rparr>) (requestAggregateDecryption e s)"
    by (auto simp: requestAggregateDecryption_def guard_defs decryptionRequestCooldown_def
        emit_def Let_def split: sum.splits if_splits option.splits)
next
  assume range: "dataCount s \<noteq> - 1"
  from current_ciphertexts_returns [OF range] obtain cts
    where cts: "current_ciphertexts s = Inr cts" ..
  have bound: "unat (block_timestamp e) < 2 ^ 256"
    using unsigned_less [of "block_timestamp e"] by simp
  have cool: "decryptionRequestCooldown e s (msg_sender e) = None \<longleftrightarrow>
      unat (lastDecryptionRequestTime s (msg_sender e)) + unat (cooldownSeconds s)
        \<le> unat (block_timestamp e)"
    using bound unat_add_lem [of "lastDecryptionRequestTime s (msg_sender e)" "cooldownSeconds s"]
    by (auto simp: decryptionRequestCooldown_def checked_add_def word_less_nat_alt)
  show "(\<exists>s'. requestAggregateDecryption e s = Inr s') \<longleftrightarrow>
      \<not> paused s
      \<and> unat (lastDecryptionRequestTime s (msg_sender e)) + unat (cooldownSeconds s)
          \<le> unat (block_timestamp e)
      \<and> dataCount s \<noteq> 0 \<and> \<not> batchOpen s"
    unfolding cool [symmetric]
    by (auto simp: requestAggregateDecryption_def guard_defs cts Let_def
        split: option.splits)
qed

theorem request_needs_no_role_witness:
  "msg_sender stranger_env \<noteq> owner closed
   \<and> \<not> isProvider closed (msg_sender stranger_env)
   \<and> dataCount closed \<noteq> - 1
   \<and> (\<exists>s'. requestAggregateDecryption stranger_env closed = Inr s')
   \<and> requestAggregateDecryption stranger_env closed \<noteq> Inl NotOwner
   \<and> requestAggregateDecryption stranger_env closed \<noteq> Inl NotProvider"
proof -
  have facts: "msg_sender stranger_env \<noteq> owner closed"
    "\<not> isProvider closed (msg_sender stranger_env)"
    "dataCount closed \<noteq> - 1" "\<not> paused closed" "dataCount closed \<noteq> 0" "\<not> batchOpen closed"
    "unat (lastDecryptionRequestTime closed (msg_sender stranger_env))
       + unat (cooldownSeconds closed) \<le> unat (block_timestamp stranger_env)"
    by (simp_all add: stranger_env_def sample_defs call_defs)
  from request_needs_no_role [of stranger_env closed] facts show ?thesis
    by blast
qed



text \<open>
  Claim C6, as amended. A callback that returns was given at least 96 bytes and read
  them as three 32-byte words in the order the request packed the handles (average,
  anyFlagTrue, isAverageHigh): word 0 as a \<^verbatim>\<open>uint256\<close>, the average; word 1 as a
  \<^verbatim>\<open>bool\<close>, which has to be 0 or 1; word 2 as a \<^verbatim>\<open>uint256\<close> again, not checked
  to be 0 or 1. The event carries \<^verbatim>\<open>results = [word 0, word 2]\<close> and
  \<^verbatim>\<open>flags = [word 1]\<close>, and the stored commitment is the hash of the three handles
  in that order.
\<close>

theorem myCallback_decoding:
  assumes "myCallback e r ct p s = Inr s'"
  shows "96 \<le> length ct
     \<and> (be_uint256 (take 32 (drop 32 ct)) = 0 \<or> be_uint256 (take 32 (drop 32 ct)) = 1)
     \<and> events s' = events s @
          [DecryptionCompleted r (batchId (context_at s r))
             [be_uint256 (take 32 ct), be_uint256 (take 32 (drop 64 ct))]
             [be_uint256 (take 32 (drop 32 ct)) = 1]]
     \<and> (\<exists>summed count anyFlagTrue.
           folded s = Inr (summed, count, anyFlagTrue)
         \<and> stateHash (context_at s r) =
             hashCiphertexts e
               [Div summed count, anyFlagTrue, Ge (Div summed count) (AsEuint32 100)])"
proof -
  from myCallback_success(4) [OF assms] obtain a f h where
    dec: "uint256_at ct 0 = Inr a" "bool_at ct 32 = Inr f" "uint256_at ct 64 = Inr h"
    and s': "s' = s\<lparr>decryptionContexts :=
                   (decryptionContexts s)(r \<mapsto> (context_at s r)\<lparr>processed := True\<rparr>),
                 events := events s @
                   [DecryptionCompleted r (batchId (context_at s r)) [a, h] [f]]\<rparr>"
    by blast
  from dec(1) have a: "a = be_uint256 (take 32 ct)"
    by (simp add: uint256_at_Inr)
  from dec(3) have h: "96 \<le> length ct" "h = be_uint256 (take 32 (drop 64 ct))"
    by (simp_all add: uint256_at_Inr)
  from dec(2) have f: "be_uint256 (take 32 (drop 32 ct)) = (if f then 1 else 0)"
    by (simp add: bool_at_Inr)
  then have f': "f \<longleftrightarrow> be_uint256 (take 32 (drop 32 ct)) = 1"
    by (cases f) simp_all
  from myCallback_success(2) [OF assms] obtain cts where
    cts: "current_ciphertexts s = Inr cts"
    and commit: "hashCiphertexts e cts = stateHash (context_at s r)"
    by blast
  from current_ciphertexts_shape [OF cts] commit
  have "\<exists>summed count anyFlagTrue.
           folded s = Inr (summed, count, anyFlagTrue)
         \<and> stateHash (context_at s r) =
             hashCiphertexts e
               [Div summed count, anyFlagTrue, Ge (Div summed count) (AsEuint32 100)]"
    by auto
  moreover have "events s' = events s @
          [DecryptionCompleted r (batchId (context_at s r))
             [be_uint256 (take 32 ct), be_uint256 (take 32 (drop 64 ct))]
             [be_uint256 (take 32 (drop 32 ct)) = 1]]"
    by (simp add: s' a h(2) f')
  moreover from f have "be_uint256 (take 32 (drop 32 ct)) = 0
      \<or> be_uint256 (take 32 (drop 32 ct)) = 1"
    by (cases f) simp_all
  ultimately show ?thesis
    using h(1) by blast
qed

theorem myCallback_decoding_witness:
  "\<exists>s'. myCallback (sample_env 1400) 5 odd_cleartexts [] requested = Inr s'
     \<and> events s' = events requested @ [DecryptionCompleted 5 1 [20, 2] [True]]"
proof -
  from odd_callback_returns obtain s'
    where ok: "myCallback (sample_env 1400) 5 odd_cleartexts [] requested = Inr s'" ..
  have bid: "batchId (context_at requested 5) = 1"
    by (simp add: sample_defs call_defs aggregate_loop.simps two_le_one)
  from myCallback_decoding [OF ok]
  have "events s' = events requested @ [DecryptionCompleted 5 1 [20, 2] [True]]"
    by (simp add: odd_cleartexts_decoded bid)
  with ok show ?thesis
    by blast
qed

text \<open>
  Claim C6 as the specification words it fails: a callback returns on a payload whose
  third word is 2, which does not decode as a boolean.
\<close>

theorem myCallback_third_word_counterexample:
  "\<not> (\<forall>e r ct p s s'. myCallback e r ct p s = Inr s' \<longrightarrow>
        (\<exists>average anyFlagSet thresholdExceeded.
           uint256_at ct 0 = Inr average \<and> bool_at ct 32 = Inr anyFlagSet
           \<and> bool_at ct 64 = Inr thresholdExceeded))"
proof
  assume claim: "\<forall>e r ct p s s'. myCallback e r ct p s = Inr s' \<longrightarrow>
        (\<exists>average anyFlagSet thresholdExceeded.
           uint256_at ct 0 = Inr average \<and> bool_at ct 32 = Inr anyFlagSet
           \<and> bool_at ct 64 = Inr thresholdExceeded)"
  from odd_callback_returns obtain s'
    where "myCallback (sample_env 1400) 5 odd_cleartexts [] requested = Inr s'" ..
  with claim have "\<exists>thresholdExceeded. bool_at odd_cleartexts 64 = Inr thresholdExceeded"
    by blast
  then show False
    by (simp add: odd_cleartexts_decoded(4))
qed


text \<open>
  Claim C7. After any sequence of transactions on a freshly deployed contract,
  whatever batches were opened and closed in between, the identifiers under which
  contributions are stored are exactly those from 1 to \<^verbatim>\<open>dataCount\<close>, for the
  values and for the flags, and the \<^verbatim>\<open>DataSubmitted\<close> events carry the identifiers
  1, 2, ..., \<^verbatim>\<open>dataCount\<close> in this order: strictly increasing, none twice.
\<close>

theorem contribution_ids_sequential:
  "dom (encryptedData (run calls (constructor e))) =
     {i. 1 \<le> i \<and> i \<le> dataCount (run calls (constructor e))}
   \<and> dom (encryptedFlags (run calls (constructor e))) =
     {i. 1 \<le> i \<and> i \<le> dataCount (run calls (constructor e))}
   \<and> map unat (submitted_ids (events (run calls (constructor e)))) =
     [1..<Suc (unat (dataCount (run calls (constructor e))))]
   \<and> sorted_wrt (<) (submitted_ids (events (run calls (constructor e))))
   \<and> distinct (submitted_ids (events (run calls (constructor e))))"
proof -
  let ?s = "run calls (constructor e)"
  have inv: "sequential_ids ?s"
    by (intro run_sequential constructor_sequential)
  then have ids: "map unat (submitted_ids (events ?s)) = [1..<Suc (unat (dataCount ?s))]"
    by (simp add: sequential_ids_def)
  have "sorted_wrt (<) (map unat (submitted_ids (events ?s)))"
    unfolding ids by (rule sorted_wrt_upt)
  moreover have "(\<lambda>x y. unat x < unat y) = ((<) :: uint256 \<Rightarrow> uint256 \<Rightarrow> bool)"
    by (intro ext) (simp add: word_less_nat_alt)
  ultimately have sorted: "sorted_wrt (<) (submitted_ids (events ?s))"
    by (simp add: sorted_wrt_map)
  have "distinct (map unat (submitted_ids (events ?s)))"
    unfolding ids by (rule distinct_upt)
  then have "distinct (submitted_ids (events ?s))"
    by (simp add: distinct_map)
  with inv sorted ids show ?thesis
    by (simp add: sequential_ids_def)
qed

theorem contribution_ids_sequential_witness:
  "dataCount resubmitted = 2
   \<and> map unat (submitted_ids (events resubmitted)) = [1, 2]
   \<and> dom (encryptedData resubmitted) = {i. 1 \<le> i \<and> i \<le> 2}
   \<and> dom (encryptedFlags resubmitted) = {i. 1 \<le> i \<and> i \<le> 2}
   \<and> distinct (submitted_ids (events resubmitted))"
proof -
  have history: "resubmitted =
      run [(sample_env 1000, OpenBatch),
           (sample_env 1000, SubmitEncryptedData Uninit Uninit),
           (sample_env 1100, CloseBatch),
           (sample_env 1200, RequestAggregateDecryption),
           (sample_env 1300, OpenBatch),
           (sample_env 1300, SubmitEncryptedData Uninit Uninit)]
        (constructor (sample_env 1000))"
    by (simp add: resubmitted_def requested_def closed_def collecting_def opened_def
        deployed_def)
  have count: "dataCount resubmitted = 2"
    by (simp add: sample_defs call_defs aggregate_loop.simps two_le_one)
  have upt: "[1..<Suc (unat (2 :: uint256))] = [1, 2]"
    by code_simp
  from contribution_ids_sequential
    [of "[(sample_env 1000, OpenBatch),
          (sample_env 1000, SubmitEncryptedData Uninit Uninit),
          (sample_env 1100, CloseBatch),
          (sample_env 1200, RequestAggregateDecryption),
          (sample_env 1300, OpenBatch),
          (sample_env 1300, SubmitEncryptedData Uninit Uninit)]" "sample_env 1000",
     folded history]
  show ?thesis
    by (simp only: count upt)
qed

end
